theory Spec2Isabelle
  imports Main "HOL-Library.Word"
begin

unbundle bit_operations_syntax

section \<open>Bytes, strings and errors\<close>

text \<open>
  A Go \<^verbatim>\<open>string\<close> is an immutable sequence of bytes and \<^verbatim>\<open>[]byte\<close> is a mutable one; the
  conversions \<^verbatim>\<open>[]byte(s)\<close> and \<^verbatim>\<open>string(b)\<close> copy the bytes unchanged. Both are lists of
  8-bit characters here, so the conversions are the identity. The program runs on a Unix
  system: the path separator is the slash.
\<close>

type_synonym byte = char
type_synonym bytes = "byte list"

datatype errno = ENOENT | ENOTDIR | EISDIR | ENOSPC | EEXIST | ENAMETOOLONG | EINVAL

datatype error =
    Errno errno
  | ErrorString string
  | ErrHeader
  | ErrDictionary
  | ErrChecksum
  | ErrUnexpectedEOF
  | CorruptInputError

datatype panic = SliceBoundsOutOfRange

section \<open>The object and its frame\<close>

record GitObject =
  Kind :: string
  Size :: string
  Data :: bytes

text \<open>The zero value \<^verbatim>\<open>GitObject{}\<close>.\<close>

definition GitObject_zero :: GitObject where
  "GitObject_zero = \<lparr>Kind = [], Size = [], Data = []\<rparr>"

subsection \<open>\<^verbatim>\<open>strconv.Itoa\<close>\<close>

definition digit_char :: "nat \<Rightarrow> char" where
  "digit_char d = ''0123456789'' ! d"

function format_nat :: "nat \<Rightarrow> string" where
  "format_nat n = (if n < 10 then [digit_char n] else format_nat (n div 10) @ [digit_char (n mod 10)])"
  by pat_completeness auto
termination
  by (relation "measure id") auto

declare format_nat.simps [simp del]

text \<open>
  The argument of \<^verbatim>\<open>Itoa\<close> in this program is \<^verbatim>\<open>len(data) - 1\<close>, which lies between -1 and
  the largest \<^verbatim>\<open>int\<close>: the subtraction cannot overflow, and the machine integer is an
  \<^typ>\<open>int\<close> here.
\<close>

definition strconv_Itoa :: "int \<Rightarrow> string" where
  "strconv_Itoa i = (if i < 0 then CHR ''-'' # format_nat (nat (- i)) else format_nat (nat i))"

subsection \<open>\<^verbatim>\<open>bytes.Join\<close>, \<^verbatim>\<open>bytes.IndexByte\<close> and slice expressions\<close>

fun bytes_Join :: "bytes list \<Rightarrow> bytes \<Rightarrow> bytes" where
  "bytes_Join [] sep = []"
| "bytes_Join [x] sep = x"
| "bytes_Join (x # y # s) sep = x @ sep @ bytes_Join (y # s) sep"

fun bytes_IndexByte :: "bytes \<Rightarrow> byte \<Rightarrow> int" where
  "bytes_IndexByte [] c = - 1"
| "bytes_IndexByte (b # bs) c =
     (if b = c then 0
      else (let i = bytes_IndexByte bs c in if i < 0 then - 1 else i + 1))"

text \<open>
  \<^verbatim>\<open>s[lo:hi]\<close> panics unless \<^verbatim>\<open>0 <= lo <= hi <= cap(s)\<close>. Every bound this program uses is
  an index found in the slice plus at most one, or its length, so it never lies between
  the length and the capacity, and the bound checked here is the length.
\<close>

definition slice :: "bytes \<Rightarrow> int \<Rightarrow> int \<Rightarrow> panic + bytes" where
  "slice s lo hi =
     (if 0 \<le> lo \<and> lo \<le> hi \<and> hi \<le> int (length s)
      then Inr (take (nat (hi - lo)) (drop (nat lo) s))
      else Inl SliceBoundsOutOfRange)"

subsection \<open>Building the frame (\<^verbatim>\<open>Write\<close>, lines 29 to 35)\<close>

definition Write_content :: "GitObject \<Rightarrow> bytes" where
  "Write_content obj =
     (let bKind = Kind obj;
          bSize = strconv_Itoa (int (length (Data obj)) - 1);
          bData = Data obj;
          sl = [bKind, '' '', bSize, [CHR 0x00], bData]
      in bytes_Join sl [])"

subsection \<open>Splitting the frame (\<^verbatim>\<open>ReadObject\<close>, lines 121 to 128)\<close>

text \<open>
  The fields of the composite literal are evaluated in order, so the first slice
  expression out of range is the one that panics.
\<close>

definition ReadObject_fields :: "bytes \<Rightarrow> panic + GitObject" where
  "ReadObject_fields fData =
     (let x = bytes_IndexByte fData (CHR '' '');
          y = bytes_IndexByte fData (CHR 0x00)
      in case slice fData 0 x of
           Inl p \<Rightarrow> Inl p
         | Inr kind \<Rightarrow>
             (case slice fData (x + 1) y of
                Inl p \<Rightarrow> Inl p
              | Inr sz \<Rightarrow>
                  (case slice fData (y + 1) (int (length fData)) of
                     Inl p \<Rightarrow> Inl p
                   | Inr data \<Rightarrow> Inr \<lparr>Kind = kind, Size = sz, Data = data\<rparr>)))"

section \<open>The address: \<^verbatim>\<open>crypto/sha1\<close> and \<^verbatim>\<open>encoding/hex\<close>\<close>

text \<open>
  SHA-1 as the standard (FIPS 180-4) defines it and the Go library computes it: the message
  is padded to a multiple of 64 bytes, each block is read as sixteen big-endian 32-bit
  words, extended to eighty by the rotating window of sixteen words, and folded into the
  five chaining words by four groups of twenty rounds. Additions wrap at 32 bits.
\<close>

type_synonym u32 = "32 word"
type_synonym digest = "u32 \<times> u32 \<times> u32 \<times> u32 \<times> u32"

definition rotl :: "nat \<Rightarrow> u32 \<Rightarrow> u32" where
  "rotl n x = push_bit n x OR drop_bit (32 - n) x"

fun be_words :: "bytes \<Rightarrow> u32 list" where
  "be_words (a # b # c # d # p) =
     (push_bit 24 (of_char a) OR push_bit 16 (of_char b) OR push_bit 8 (of_char c) OR of_char d)
       # be_words p"
| "be_words _ = []"

definition next_window :: "u32 list \<Rightarrow> u32 list" where
  "next_window w = tl w @ [rotl 1 (w ! 13 XOR w ! 8 XOR w ! 2 XOR w ! 0)]"

fun schedule :: "nat \<Rightarrow> u32 list \<Rightarrow> u32 list" where
  "schedule 0 w = []"
| "schedule (Suc n) w = hd w # schedule n (next_window w)"

definition f_ch :: "u32 \<Rightarrow> u32 \<Rightarrow> u32 \<Rightarrow> u32" where
  "f_ch b c d = (b AND c) OR (NOT b AND d)"

definition f_parity :: "u32 \<Rightarrow> u32 \<Rightarrow> u32 \<Rightarrow> u32" where
  "f_parity b c d = b XOR c XOR d"

definition f_maj :: "u32 \<Rightarrow> u32 \<Rightarrow> u32 \<Rightarrow> u32" where
  "f_maj b c d = ((b OR c) AND d) OR (b AND c)"

fun step :: "(u32 \<Rightarrow> u32 \<Rightarrow> u32 \<Rightarrow> u32) \<Rightarrow> u32 \<Rightarrow> digest \<Rightarrow> u32 \<Rightarrow> digest" where
  "step f k (a, b, c, d, e) w = (rotl 5 a + f b c d + e + w + k, a, rotl 30 b, c, d)"

fun add5 :: "digest \<Rightarrow> digest \<Rightarrow> digest" where
  "add5 (h0, h1, h2, h3, h4) (a, b, c, d, e) = (h0 + a, h1 + b, h2 + c, h3 + d, h4 + e)"

definition block :: "digest \<Rightarrow> bytes \<Rightarrow> digest" where
  "block h p =
     (let w = schedule 80 (be_words p);
          s1 = foldl (step f_ch 0x5A827999) h (take 20 w);
          s2 = foldl (step f_parity 0x6ED9EBA1) s1 (take 20 (drop 20 w));
          s3 = foldl (step f_maj 0x8F1BBCDC) s2 (take 20 (drop 40 w));
          s4 = foldl (step f_parity 0xCA62C1D6) s3 (take 20 (drop 60 w))
      in add5 h s4)"

function blocks :: "digest \<Rightarrow> bytes \<Rightarrow> digest" where
  "blocks h p = (if length p < 64 then h else blocks (block h (take 64 p)) (drop 64 p))"
  by pat_completeness auto
termination
  by (relation "measure (\<lambda>(h, p). length p)") auto

declare blocks.simps [simp del]

definition byte_of :: "nat \<Rightarrow> byte" where
  "byte_of n = char_of n"

definition be32_bytes :: "u32 \<Rightarrow> bytes" where
  "be32_bytes h = map (\<lambda>k. byte_of (unat (drop_bit k h))) [24, 16, 8, 0]"

definition be64_bytes :: "nat \<Rightarrow> bytes" where
  "be64_bytes n = map (\<lambda>k. byte_of (n div 2 ^ k)) [56, 48, 40, 32, 24, 16, 8, 0]"

text \<open>The bit length is a \<^verbatim>\<open>uint64\<close>: it wraps at 64 bits.\<close>

definition padding :: "nat \<Rightarrow> bytes" where
  "padding len =
     CHR 0x80 # replicate (if len mod 64 < 56 then 55 - len mod 64 else 119 - len mod 64) (CHR 0x00)
       @ be64_bytes ((len * 8) mod 2 ^ 64)"

definition init :: digest where
  "init = (0x67452301, 0xEFCDAB89, 0x98BADCFE, 0x10325476, 0xC3D2E1F0)"

fun digest_bytes :: "digest \<Rightarrow> bytes" where
  "digest_bytes (h0, h1, h2, h3, h4) = concat (map be32_bytes [h0, h1, h2, h3, h4])"

definition sha1_Sum :: "bytes \<Rightarrow> bytes" where
  "sha1_Sum msg = digest_bytes (blocks init (msg @ padding (length msg)))"

definition hextable :: string where
  "hextable = ''0123456789abcdef''"

definition hex_EncodeToString :: "bytes \<Rightarrow> string" where
  "hex_EncodeToString src =
     concat (map (\<lambda>v. [hextable ! (of_char v div 16), hextable ! (of_char v mod 16)]) src)"

section \<open>Paths: \<^verbatim>\<open>path.Clean\<close>, \<^verbatim>\<open>path.Join\<close> and \<^verbatim>\<open>filepath.Abs\<close>\<close>

fun add_char :: "char \<Rightarrow> string list \<Rightarrow> string list" where
  "add_char c [] = [[c]]"
| "add_char c (e # es) = (c # e) # es"

fun split_slash :: "string \<Rightarrow> string list" where
  "split_slash [] = [[]]"
| "split_slash (c # cs) =
     (if c = CHR ''/'' then [] # split_slash cs else add_char c (split_slash cs))"

fun join_slash :: "string list \<Rightarrow> string" where
  "join_slash [] = []"
| "join_slash [e] = e"
| "join_slash (e # f # es) = e @ CHR ''/'' # join_slash (f # es)"

text \<open>
  \<^verbatim>\<open>Clean\<close> reads the path element by element and keeps the elements of the result on a
  stack, the last one on top: an empty element or a dot is dropped; a dot-dot removes the
  element on top when there is one to go back over, is dropped at the root of a rooted
  path, and is kept otherwise.
\<close>

definition clean_step :: "bool \<Rightarrow> string list \<Rightarrow> string \<Rightarrow> string list" where
  "clean_step rooted out e =
     (if e = [] \<or> e = ''.'' then out
      else if e = ''..'' then
        (case out of
           [] \<Rightarrow> if rooted then [] else [''..'']
         | t # ts \<Rightarrow> if t = ''..'' then ''..'' # out else ts)
      else e # out)"

definition filepath_IsAbs :: "string \<Rightarrow> bool" where
  "filepath_IsAbs p = (p \<noteq> [] \<and> hd p = CHR ''/'')"

definition path_Clean :: "string \<Rightarrow> string" where
  "path_Clean p =
     (if p = [] then ''.''
      else
        (let rooted = filepath_IsAbs p;
             out = rev (foldl (clean_step rooted) [] (split_slash p))
         in if rooted then CHR ''/'' # join_slash out
            else if out = [] then ''.''
            else join_slash out))"

text \<open>\<^verbatim>\<open>Join\<close> ignores the empty elements in front and cleans the rest, joined by slashes.\<close>

definition path_Join :: "string list \<Rightarrow> string" where
  "path_Join elem =
     (case dropWhile (\<lambda>e. e = []) elem of
        [] \<Rightarrow> []
      | e # es \<Rightarrow> path_Clean (join_slash (e # es)))"

section \<open>The file system\<close>

text \<open>
  The state the program works on: the tree of files and directories, keyed by the list of
  names from the root (the root itself, the empty list, is a directory); the working
  directory of the process, absent when it has been removed; and the free space of the
  disk. The system is Linux: a name has at most 255 bytes and a path fewer than 4096.
  There are no symbolic links and no permissions.
\<close>

datatype node = File bytes | Dir

record world =
  cwd :: "string list option"
  fs :: "string list \<Rightarrow> node option"
  free :: nat

definition node_at :: "world \<Rightarrow> string list \<Rightarrow> node option" where
  "node_at w cs = (if cs = [] then Some Dir else fs w cs)"

subsection \<open>Path resolution\<close>

text \<open>
  The kernel walks the tree, one element of the path after the other. To take a step the
  place it stands on must be a directory that exists: below a regular file the error is
  \<^verbatim>\<open>ENOTDIR\<close>, below a missing name \<^verbatim>\<open>ENOENT\<close>. An empty element (from a doubled or a
  trailing slash) and a dot stay in place, a dot-dot goes to the parent, and a name goes
  down, whether an entry of that name exists or not: the last name of a path may be
  missing, and the caller looks at what the walk arrives at.
\<close>

fun walk :: "world \<Rightarrow> string list \<Rightarrow> string list \<Rightarrow> errno + string list" where
  "walk w cur [] = Inr cur"
| "walk w cur (c # cs) =
     (case node_at w cur of
        None \<Rightarrow> Inl ENOENT
      | Some (File b) \<Rightarrow> Inl ENOTDIR
      | Some Dir \<Rightarrow>
          if c = [] \<or> c = ''.'' then walk w cur cs
          else if c = ''..'' then walk w (butlast cur) cs
          else if 255 < length c then Inl ENAMETOOLONG
          else walk w (cur @ [c]) cs)"

text \<open>
  What fails before the walk: the Go library refuses a path with a null byte
  (\<^verbatim>\<open>EINVAL\<close>), the kernel an empty path (\<^verbatim>\<open>ENOENT\<close>), a path of 4096 bytes or more
  (\<^verbatim>\<open>ENAMETOOLONG\<close>), and a relative path when the working directory is gone.
\<close>

definition path_errno :: "world \<Rightarrow> string \<Rightarrow> errno option" where
  "path_errno w p =
     (if CHR 0x00 \<in> set p then Some EINVAL
      else if p = [] then Some ENOENT
      else if 4096 \<le> length p then Some ENAMETOOLONG
      else if filepath_IsAbs p then None
      else (case cwd w of None \<Rightarrow> Some ENOENT | Some c \<Rightarrow> None))"

definition start_dir :: "world \<Rightarrow> string \<Rightarrow> string list" where
  "start_dir w p = (if filepath_IsAbs p then [] else (case cwd w of None \<Rightarrow> [] | Some c \<Rightarrow> c))"

definition resolve_names :: "world \<Rightarrow> string \<Rightarrow> string list \<Rightarrow> errno + string list" where
  "resolve_names w p comps =
     (case path_errno w p of
        Some e \<Rightarrow> Inl e
      | None \<Rightarrow> walk w (start_dir w p) comps)"

definition resolve :: "world \<Rightarrow> string \<Rightarrow> errno + string list" where
  "resolve w p = resolve_names w p (split_slash p)"

text \<open>
  Where a call makes or creates the last name, trailing slashes do not take part in the
  walk.
\<close>

definition strip_empty_tail :: "string list \<Rightarrow> string list" where
  "strip_empty_tail cs = rev (dropWhile (\<lambda>c. c = []) (rev cs))"

subsection \<open>The calls of the program\<close>

text \<open>\<^verbatim>\<open>stat\<close>: what is at the path.\<close>

definition lookup :: "world \<Rightarrow> string \<Rightarrow> errno + node" where
  "lookup w p =
     (case resolve w p of
        Inl e \<Rightarrow> Inl e
      | Inr cs \<Rightarrow> (case node_at w cs of None \<Rightarrow> Inl ENOENT | Some n \<Rightarrow> Inr n))"

definition os_Getwd :: "world \<Rightarrow> error + string" where
  "os_Getwd w =
     (case cwd w of
        None \<Rightarrow> Inl (Errno ENOENT)
      | Some c \<Rightarrow> Inr (CHR ''/'' # join_slash c))"

definition filepath_Abs :: "string \<Rightarrow> world \<Rightarrow> error + string" where
  "filepath_Abs p w =
     (if filepath_IsAbs p then Inr (path_Clean p)
      else
        (case os_Getwd w of
           Inl err \<Rightarrow> Inl err
         | Inr wd \<Rightarrow> Inr (path_Join [wd, p])))"

definition os_Stat :: "string \<Rightarrow> world \<Rightarrow> error option" where
  "os_Stat p w = (case lookup w p of Inl e \<Rightarrow> Some (Errno e) | Inr n \<Rightarrow> None)"

definition os_IsNotExist :: "error option \<Rightarrow> bool" where
  "os_IsNotExist err = (err = Some (Errno ENOENT))"

definition ioutil_ReadFile :: "string \<Rightarrow> world \<Rightarrow> error + bytes" where
  "ioutil_ReadFile p w =
     (case lookup w p of
        Inl e \<Rightarrow> Inl (Errno e)
      | Inr Dir \<Rightarrow> Inl (Errno EISDIR)
      | Inr (File b) \<Rightarrow> Inr b)"

text \<open>\<^verbatim>\<open>mkdir\<close>: the parent must exist and the name must not.\<close>

definition os_Mkdir :: "string \<Rightarrow> world \<Rightarrow> error option \<times> world" where
  "os_Mkdir p w =
     (case resolve_names w p (strip_empty_tail (split_slash p)) of
        Inl e \<Rightarrow> (Some (Errno e), w)
      | Inr cs \<Rightarrow>
          (case node_at w cs of
             Some n \<Rightarrow> (Some (Errno EEXIST), w)
           | None \<Rightarrow> (None, w\<lparr>fs := (fs w)(cs \<mapsto> Dir)\<rparr>)))"

text \<open>
  \<^verbatim>\<open>MkdirAll\<close> as the library writes it: nothing to do when the path is a directory, an
  error when it is a file; otherwise the parent first (the path up to the slash before its
  last element, when that is not empty), then \<^verbatim>\<open>Mkdir\<close>, whose failure is no error when
  the directory is there after all.
\<close>

definition IsPathSeparator :: "char \<Rightarrow> bool" where
  "IsPathSeparator c = (c = CHR ''/'')"

definition parent_end :: "string \<Rightarrow> nat" where
  "parent_end path =
     length (dropWhile (\<lambda>c. \<not> IsPathSeparator c) (dropWhile IsPathSeparator (rev path)))"

definition Mkdir_checked :: "string \<Rightarrow> world \<Rightarrow> error option \<times> world" where
  "Mkdir_checked path w =
     (case os_Mkdir path w of
        (None, w2) \<Rightarrow> (None, w2)
      | (Some err, w2) \<Rightarrow>
          (case lookup w2 path of
             Inr Dir \<Rightarrow> (None, w2)
           | Inr (File b) \<Rightarrow> (Some err, w2)
           | Inl e \<Rightarrow> (Some err, w2)))"

function os_MkdirAll :: "string \<Rightarrow> world \<Rightarrow> error option \<times> world" where
  "os_MkdirAll path w =
     (case lookup w path of
        Inr Dir \<Rightarrow> (None, w)
      | Inr (File b) \<Rightarrow> (Some (Errno ENOTDIR), w)
      | Inl e \<Rightarrow>
          if 1 < parent_end path
          then (case os_MkdirAll (take (parent_end path - 1) path) w of
                  (Some err, w1) \<Rightarrow> (Some err, w1)
                | (None, w1) \<Rightarrow> Mkdir_checked path w1)
          else Mkdir_checked path w)"
  by pat_completeness auto
termination
proof (relation "measure (\<lambda>(path, w). length path)")
  show "wf (measure (\<lambda>(path, w). length path))" by simp
next
  fix path :: string and w :: world and e :: errno
  assume "1 < parent_end path"
  moreover have "parent_end path \<le> length path"
    unfolding parent_end_def
    using length_dropWhile_le [of "\<lambda>c. \<not> IsPathSeparator c" "dropWhile IsPathSeparator (rev path)"]
      length_dropWhile_le [of IsPathSeparator "rev path"]
    by simp
  ultimately show "((take (parent_end path - 1) path, w), (path, w))
      \<in> measure (\<lambda>(path, w). length path)"
    by simp
qed

declare os_MkdirAll.simps [simp del]

text \<open>
  \<^verbatim>\<open>Create\<close> opens the file for writing, empty: a file that exists is truncated, and its
  space is free again; a path that ends in a slash, or names a directory, is refused. The
  handle it returns is the place the walk arrives at.
\<close>

definition os_Create :: "string \<Rightarrow> world \<Rightarrow> (error + string list) \<times> world" where
  "os_Create p w =
     (case resolve_names w p (strip_empty_tail (split_slash p)) of
        Inl e \<Rightarrow> (Inl (Errno e), w)
      | Inr cs \<Rightarrow>
          if last p = CHR ''/'' then (Inl (Errno EISDIR), w)
          else
            (case node_at w cs of
               Some Dir \<Rightarrow> (Inl (Errno EISDIR), w)
             | Some (File old) \<Rightarrow>
                 (Inr cs, w\<lparr>fs := (fs w)(cs \<mapsto> File []), free := free w + length old\<rparr>)
             | None \<Rightarrow> (Inr cs, w\<lparr>fs := (fs w)(cs \<mapsto> File [])\<rparr>)))"

text \<open>
  Writing to the file just created: all of the bytes when the disk has room for them, and
  otherwise as many as fit, with an error.
\<close>

definition File_Write :: "string list \<Rightarrow> bytes \<Rightarrow> world \<Rightarrow> error option \<times> world" where
  "File_Write h b w =
     (if length b \<le> free w
      then (None, w\<lparr>fs := (fs w)(h \<mapsto> File b), free := free w - length b\<rparr>)
      else (Some (Errno ENOSPC), w\<lparr>fs := (fs w)(h \<mapsto> File (take (free w) b)), free := 0\<rparr>))"

section \<open>\<^verbatim>\<open>compress/zlib\<close>\<close>

text \<open>
  The compressor and the decompressor of the library are parameters of the program:
  \<^verbatim>\<open>Compress\<close> is what a writer leaves in its buffer once the content is written and the
  writer closed, \<^verbatim>\<open>NewReader\<close> reads the header of a stream and returns the reader on the
  rest, and \<^verbatim>\<open>ReadAll\<close> reads that reader to its end.
\<close>

record zlib =
  Compress :: "bytes \<Rightarrow> bytes"
  NewReader :: "bytes \<Rightarrow> error + bytes"
  ReadAll :: "bytes \<Rightarrow> error + bytes"

section \<open>A reference codec: the zlib container with stored blocks\<close>

text \<open>
  One instance of the parameters, used where a theorem is run on concrete files. Its
  streams are zlib streams (RFC 1950) whose deflate data consists of stored blocks
  (RFC 1951, block type 0): the two-byte header, the blocks, and the Adler-32 checksum of
  the content, big-endian. Its reader accepts these streams and no block of another type.
\<close>

fun adler_step :: "nat \<times> nat \<Rightarrow> byte \<Rightarrow> nat \<times> nat" where
  "adler_step (a, b) c = ((a + of_char c) mod 65521, (b + (a + of_char c) mod 65521) mod 65521)"

definition adler32 :: "bytes \<Rightarrow> nat" where
  "adler32 d = (case foldl adler_step (1, 0) d of (a, b) \<Rightarrow> b * 65536 + a)"

definition be32_nat :: "nat \<Rightarrow> bytes" where
  "be32_nat n = map (\<lambda>k. byte_of (n div 2 ^ k)) [24, 16, 8, 0]"

definition le16_nat :: "nat \<Rightarrow> bytes" where
  "le16_nat n = [byte_of (n mod 256), byte_of (n div 256 mod 256)]"

function stored_blocks :: "bytes \<Rightarrow> bytes" where
  "stored_blocks d =
     (if length d \<le> 65535
      then CHR 0x01 # le16_nat (length d) @ le16_nat (65535 - length d) @ d
      else CHR 0x00 # le16_nat 65535 @ le16_nat 0 @ take 65535 d @ stored_blocks (drop 65535 d))"
  by pat_completeness auto
termination
  by (relation "measure length") auto

declare stored_blocks.simps [simp del]

definition stored_Compress :: "bytes \<Rightarrow> bytes" where
  "stored_Compress d = CHR 0x78 # CHR 0x01 # stored_blocks d @ be32_nat (adler32 d)"

fun stored_NewReader :: "bytes \<Rightarrow> error + bytes" where
  "stored_NewReader (cmf # flg # body) =
     (if of_char cmf mod 16 \<noteq> (8::nat) \<or> of_char cmf div 16 > (7::nat)
         \<or> (of_char cmf * 256 + of_char flg) mod 31 \<noteq> (0::nat)
      then Inl ErrHeader
      else if (of_char flg div 32) mod 2 = (1::nat) then Inl ErrDictionary
      else Inr body)"
| "stored_NewReader _ = Inl ErrUnexpectedEOF"

function inflate_stored :: "bytes \<Rightarrow> error + bytes \<times> bytes" where
  "inflate_stored s =
     (case s of
        hdr # l0 # l1 # n0 # n1 # rest \<Rightarrow>
          (let len = of_char l0 + 256 * of_char l1;
               nlen = of_char n0 + 256 * of_char n1
           in if (of_char hdr div 2) mod 4 \<noteq> (0::nat) \<or> len + nlen \<noteq> (65535::nat)
              then Inl CorruptInputError
              else if length rest < len then Inl ErrUnexpectedEOF
              else if of_char hdr mod 2 = (1::nat) then Inr (take len rest, drop len rest)
              else
                (case inflate_stored (drop len rest) of
                   Inl e \<Rightarrow> Inl e
                 | Inr (d, r) \<Rightarrow> Inr (take len rest @ d, r)))
      | _ \<Rightarrow> Inl ErrUnexpectedEOF)"
  by pat_completeness auto
termination
  by (relation "measure length") auto

declare inflate_stored.simps [simp del]

definition stored_ReadAll :: "bytes \<Rightarrow> error + bytes" where
  "stored_ReadAll body =
     (case inflate_stored body of
        Inl e \<Rightarrow> Inl e
      | Inr (d, rest) \<Rightarrow>
          if length rest < 4 then Inl ErrUnexpectedEOF
          else if take 4 rest = be32_nat (adler32 d) then Inr d
          else Inl ErrChecksum)"

definition stored_zlib :: zlib where
  "stored_zlib = \<lparr>Compress = stored_Compress, NewReader = stored_NewReader, ReadAll = stored_ReadAll\<rparr>"

section \<open>The program\<close>

definition Write :: "zlib \<Rightarrow> GitObject \<Rightarrow> string \<Rightarrow> world \<Rightarrow> (string \<times> error option) \<times> world" where
  "Write z obj gitdir w =
     (let content = Write_content obj;
          sha = sha1_Sum content;
          shaStr = hex_EncodeToString sha
      in case os_MkdirAll (path_Join [gitdir, ''objects'', take 2 shaStr]) w of
           (Some err, w1) \<Rightarrow> (([], Some err), w1)
         | (None, w1) \<Rightarrow>
             (case filepath_Abs (path_Join [gitdir, ''objects'', take 2 shaStr, drop 2 shaStr]) w1 of
                Inl err \<Rightarrow> (([], Some err), w1)
              | Inr nFilePath \<Rightarrow>
                  (case os_Create nFilePath w1 of
                     (Inl err, w2) \<Rightarrow> (([], Some err), w2)
                   | (Inr nFile, w2) \<Rightarrow>
                       (case File_Write nFile (Compress z content) w2 of
                          (Some err, w3) \<Rightarrow> (([], Some err), w3)
                        | (None, w3) \<Rightarrow> ((shaStr, None), w3)))))"

definition ReadObjectFile :: "zlib \<Rightarrow> string \<Rightarrow> world \<Rightarrow> bytes \<times> error option" where
  "ReadObjectFile z objectpath w =
     (case ioutil_ReadFile objectpath w of
        Inl err \<Rightarrow> ([], Some err)
      | Inr data \<Rightarrow>
          (case NewReader z data of
             Inl err \<Rightarrow> ([], Some err)
           | Inr raw \<Rightarrow>
               (case ReadAll z raw of
                  Inl err \<Rightarrow> ([], Some err)
                | Inr bData \<Rightarrow> (bData, None))))"

definition ReadObject :: "zlib \<Rightarrow> string \<Rightarrow> world \<Rightarrow> panic + (GitObject \<times> error option)" where
  "ReadObject z objectpath w =
     (if os_IsNotExist (os_Stat objectpath w)
      then Inr (GitObject_zero, Some (ErrorString ''Specifies file does not exist''))
      else
        (case ReadObjectFile z objectpath w of
           (fData, Some err) \<Rightarrow> Inr (GitObject_zero, Some err)
         | (fData, None) \<Rightarrow>
             (case ReadObject_fields fData of
                Inl p \<Rightarrow> Inl p
              | Inr obj \<Rightarrow> Inr (obj, None))))"

section \<open>Notions of the specification\<close>

subsection \<open>The size field of a frame, read as a decimal number\<close>

text \<open>
  The size field lies between the space that ends a kind of \<open>k\<close> bytes and the next null
  byte. A decimal rendering is an optional minus sign and digits without a leading zero
  (and no minus zero); \<open>decimal_value\<close> reads one back, and nothing else.
\<close>

definition digit_value :: "char \<Rightarrow> nat option" where
  "digit_value c = (if 48 \<le> (of_char c :: nat) \<and> (of_char c :: nat) \<le> 57 then Some (of_char c - 48) else None)"

fun digits_value :: "nat \<Rightarrow> string \<Rightarrow> nat option" where
  "digits_value acc [] = Some acc"
| "digits_value acc (c # cs) =
     (case digit_value c of None \<Rightarrow> None | Some d \<Rightarrow> digits_value (10 * acc + d) cs)"

definition canonical_digits :: "string \<Rightarrow> bool" where
  "canonical_digits s = (case s of [] \<Rightarrow> False | c # cs \<Rightarrow> if c = CHR ''0'' then cs = [] else True)"

definition decimal_value :: "string \<Rightarrow> int option" where
  "decimal_value s =
     (case s of
        [] \<Rightarrow> None
      | c # cs \<Rightarrow>
          if c = CHR ''-''
          then (if canonical_digits cs \<and> cs \<noteq> ''0''
                then map_option (\<lambda>n. - int n) (digits_value 0 cs) else None)
          else (if canonical_digits s then map_option int (digits_value 0 s) else None))"

definition size_field :: "nat \<Rightarrow> bytes \<Rightarrow> string" where
  "size_field k frame = takeWhile (\<lambda>c. c \<noteq> CHR 0x00) (drop (k + 1) frame)"

subsection \<open>Decompression as a whole\<close>

text \<open>A file holds a valid stream when the reader takes its header and reads it to the end.\<close>

definition zlib_decode :: "zlib \<Rightarrow> bytes \<Rightarrow> error + bytes" where
  "zlib_decode z data = (case NewReader z data of Inl e \<Rightarrow> Inl e | Inr raw \<Rightarrow> ReadAll z raw)"

subsection \<open>Well-formed names\<close>

text \<open>
  A name in a directory is not empty, is neither dot nor dot-dot and contains no slash;
  the working directory of a process is made of such names.
\<close>

definition normal_name :: "string \<Rightarrow> bool" where
  "normal_name e = (e \<noteq> [] \<and> e \<noteq> ''.'' \<and> e \<noteq> ''..'' \<and> CHR ''/'' \<notin> set e)"

text \<open>An element on the stack of \<^verbatim>\<open>Clean\<close> for a path that is not rooted may also be dot-dot.\<close>

definition rel_name :: "string \<Rightarrow> bool" where
  "rel_name e = (e \<noteq> [] \<and> e \<noteq> ''.'' \<and> CHR ''/'' \<notin> set e)"

definition cwd_ok :: "world \<Rightarrow> bool" where
  "cwd_ok w = (case cwd w of None \<Rightarrow> True | Some c \<Rightarrow> list_all normal_name c)"

subsection \<open>The directory a root names\<close>

text \<open>
  The program never hands the root of a store to the system as it is given: it joins it
  with other names by \<^verbatim>\<open>path.Join\<close>, which cleans the result by its text, and makes it
  absolute by \<^verbatim>\<open>filepath.Abs\<close>, which puts the working directory in front and cleans
  again. The directory a root names is therefore read off its text: \<open>abs_names\<close> gives the
  names, from the root of the file system, of the absolute path of a path.
\<close>

definition abs_names :: "world \<Rightarrow> string \<Rightarrow> errno + string list" where
  "abs_names w p =
     (if filepath_IsAbs p then Inr (rev (foldl (clean_step True) [] (split_slash p)))
      else
        (case cwd w of
           None \<Rightarrow> Inl ENOENT
         | Some c \<Rightarrow> Inr (rev (foldl (clean_step True) (rev c) (split_slash p)))))"

subsection \<open>Concrete inputs\<close>

definition example_world :: world where
  "example_world =
     \<lparr>cwd = Some [''home'', ''u''],
      fs = [[''home''] \<mapsto> Dir, [''home'', ''u''] \<mapsto> Dir],
      free = 1000\<rparr>"

definition blob_hello :: GitObject where
  "blob_hello = \<lparr>Kind = ''blob'', Size = [], Data = ''hello''\<rparr>"

text \<open>A payload with a null byte and a space in it.\<close>

definition binary_blob :: GitObject where
  "binary_blob = \<lparr>Kind = ''blob'', Size = [], Data = [CHR ''a'', CHR 0x00, CHR '' '', CHR ''b'']\<rparr>"

definition empty_commit :: GitObject where
  "empty_commit = \<lparr>Kind = ''commit'', Size = [], Data = []\<rparr>"

text \<open>
  A store with six files that are not objects: valid streams of three frames without
  their delimiters in order, a file that is not compressed, a stream cut short, and a
  stream whose checksum is wrong.
\<close>

definition broken_world :: world where
  "broken_world =
     \<lparr>cwd = Some [''srv''],
      fs = [[''srv''] \<mapsto> Dir,
            [''srv'', ''nospace''] \<mapsto> File (stored_Compress ''blob''),
            [''srv'', ''nonull''] \<mapsto> File (stored_Compress ''blob 5hello''),
            [''srv'', ''nullfirst''] \<mapsto> File (stored_Compress (CHR 0x00 # ''blob 5'')),
            [''srv'', ''garbage''] \<mapsto> File ''not compressed'',
            [''srv'', ''truncated''] \<mapsto> File (take 9 (stored_Compress ''blob'')),
            [''srv'', ''badsum''] \<mapsto> File (butlast (stored_Compress ''blob'') @ [CHR 0x00])],
      free = 0\<rparr>"

definition bare_world :: world where
  "bare_world = \<lparr>cwd = None, fs = Map.empty, free = 64\<rparr>"

section \<open>The frame\<close>

subsection \<open>\<^verbatim>\<open>Itoa\<close> writes the decimal rendering\<close>

lemma digit_char_cases:
  "d < 10 \<Longrightarrow> digit_value (digit_char d) = Some d \<and> digit_char d \<noteq> CHR 0x00
     \<and> digit_char d \<noteq> CHR '' '' \<and> digit_char d \<noteq> CHR ''-'' \<and> (digit_char d = CHR ''0'' \<longleftrightarrow> d = 0)"
proof -
  assume "d < 10"
  then consider "d = 0" | "d = 1" | "d = 2" | "d = 3" | "d = 4" | "d = 5" | "d = 6" | "d = 7"
    | "d = 8" | "d = 9" by atomize_elim arith
  then show ?thesis
    by cases (simp_all add: digit_char_def digit_value_def)
qed

lemma format_nat_nonempty: "format_nat n \<noteq> []"
  by (subst format_nat.simps) simp

lemma digits_value_append:
  "digits_value acc (xs @ ys) = (case digits_value acc xs of None \<Rightarrow> None | Some a \<Rightarrow> digits_value a ys)"
  by (induction xs arbitrary: acc) (auto split: option.splits)

lemma digits_value_format_nat: "digits_value 0 (format_nat n) = Some n"
proof (induction n rule: format_nat.induct)
  case (1 n)
  show ?case
  proof (cases "n < 10")
    case True
    then show ?thesis
      by (subst format_nat.simps) (simp add: digit_char_cases)
  next
    case False
    then have ih: "digits_value 0 (format_nat (n div 10)) = Some (n div 10)"
      using 1 by simp
    have d: "digit_value (digit_char (n mod 10)) = Some (n mod 10)"
      by (simp add: digit_char_cases)
    show ?thesis
      using False by (subst format_nat.simps) (simp add: digits_value_append ih d)
  qed
qed

lemma hd_format_nat: "(hd (format_nat n) = CHR ''0'') = (n = 0)"
proof (induction n rule: format_nat.induct)
  case (1 n)
  show ?case
  proof (cases "n < 10")
    case True
    then show ?thesis
      by (subst format_nat.simps) (simp add: digit_char_cases)
  next
    case False
    then have "(hd (format_nat (n div 10)) = CHR ''0'') = (n div 10 = 0)"
      using 1 by simp
    with False show ?thesis
      by (subst format_nat.simps) (simp add: format_nat_nonempty)
  qed
qed

lemma format_nat_0: "format_nat 0 = ''0''"
  by (subst format_nat.simps) (simp add: digit_char_def)

lemma canonical_format_nat: "canonical_digits (format_nat n)"
proof (cases "format_nat n")
  case Nil
  then show ?thesis by (simp add: format_nat_nonempty)
next
  case (Cons c cs)
  show ?thesis
  proof (cases "n = 0")
    case True
    then show ?thesis by (simp add: canonical_digits_def format_nat_0)
  next
    case False
    then have "c \<noteq> CHR ''0''" using hd_format_nat [of n] Cons by simp
    then show ?thesis by (simp add: canonical_digits_def Cons)
  qed
qed

lemma format_nat_eq_0: "(format_nat n = ''0'') = (n = 0)"
  using hd_format_nat [of n] format_nat_0 by auto

lemma format_nat_chars:
  "c \<in> set (format_nat n) \<Longrightarrow> c \<noteq> CHR 0x00 \<and> c \<noteq> CHR '' '' \<and> c \<noteq> CHR ''-''"
proof (induction n rule: format_nat.induct)
  case (1 n)
  show ?case
  proof (cases "n < 10")
    case True
    with 1(2) show ?thesis
      by (subst (asm) format_nat.simps) (simp add: digit_char_cases)
  next
    case False
    with 1 show ?thesis
      by (subst (asm) (2) format_nat.simps) (auto simp: digit_char_cases)
  qed
qed

lemma hd_format_nat_minus: "hd (format_nat n) \<noteq> CHR ''-''"
  using format_nat_chars [of "hd (format_nat n)" n] format_nat_nonempty [of n] by auto

lemma decimal_value_Itoa: "decimal_value (strconv_Itoa i) = Some i"
proof (cases "i < 0")
  case True
  then have "nat (- i) \<noteq> 0" by simp
  with True show ?thesis
    by (simp add: decimal_value_def strconv_Itoa_def canonical_format_nat format_nat_eq_0
        digits_value_format_nat)
next
  case False
  obtain c cs where s: "format_nat (nat i) = c # cs"
    using format_nat_nonempty [of "nat i"] by (cases "format_nat (nat i)") auto
  have "c \<noteq> CHR ''-''" using hd_format_nat_minus [of "nat i"] s by simp
  moreover have "canonical_digits (c # cs)" using canonical_format_nat [of "nat i"] s by simp
  moreover have "digits_value 0 (c # cs) = Some (nat i)"
    using digits_value_format_nat [of "nat i"] s by simp
  ultimately show ?thesis
    using False s by (simp add: decimal_value_def strconv_Itoa_def del: digits_value.simps)
qed

lemma Itoa_no_null: "CHR 0x00 \<notin> set (strconv_Itoa i)"
  using format_nat_chars by (auto simp: strconv_Itoa_def)

lemma Itoa_no_space: "CHR '' '' \<notin> set (strconv_Itoa i)"
  using format_nat_chars by (auto simp: strconv_Itoa_def)

lemma Write_content_eq:
  "Write_content obj =
     Kind obj @ CHR '' '' # strconv_Itoa (int (length (Data obj)) - 1) @ CHR 0x00 # Data obj"
  by (simp add: Write_content_def)

lemma size_field_Write_content:
  "size_field (length (Kind obj)) (Write_content obj) = strconv_Itoa (int (length (Data obj)) - 1)"
  using Itoa_no_null [of "int (length (Data obj)) - 1"]
  by (simp add: size_field_def Write_content_eq takeWhile_append)

text \<open>
  Claim C2. In the frame that \<^verbatim>\<open>Write\<close> builds, hashes and stores, the size field (between
  the space after the kind and the null byte before the payload) is the decimal rendering
  of the length of the payload minus one, for every object; for the empty payload it
  reads \<^verbatim>\<open>-1\<close>.
\<close>

theorem Write_size_field:
  "Write_content obj =
     Kind obj @ '' '' @ size_field (length (Kind obj)) (Write_content obj) @ [CHR 0x00] @ Data obj
   \<and> decimal_value (size_field (length (Kind obj)) (Write_content obj))
        = Some (int (length (Data obj)) - 1)
   \<and> size_field (length (Kind obj)) (Write_content (obj\<lparr>Data := []\<rparr>)) = ''-1''"
proof -
  have "size_field (length (Kind obj)) (Write_content (obj\<lparr>Data := []\<rparr>)) = strconv_Itoa (- 1)"
    using size_field_Write_content [of "obj\<lparr>Data := []\<rparr>"] by simp
  also have "\<dots> = ''-1''"
    by (simp add: strconv_Itoa_def format_nat.simps digit_char_def)
  finally show ?thesis
    by (simp add: size_field_Write_content decimal_value_Itoa) (simp add: Write_content_eq)
qed

subsection \<open>Splitting a frame\<close>

lemma IndexByte_notin: "c \<notin> set s \<Longrightarrow> bytes_IndexByte s c = - 1"
  by (induction s) (auto simp: Let_def)

lemma IndexByte_lower: "- 1 \<le> bytes_IndexByte s c"
  by (induction s) (simp_all add: Let_def)

lemma IndexByte_first: "c \<notin> set xs \<Longrightarrow> bytes_IndexByte (xs @ c # ys) c = int (length xs)"
  by (induction xs) (auto simp: Let_def)

text \<open>What \<^verbatim>\<open>ReadObject\<close> splits off the frame that \<^verbatim>\<open>Write\<close> builds.\<close>

lemma ReadObject_fields_Write_content:
  assumes "CHR '' '' \<notin> set (Kind obj)" and "CHR 0x00 \<notin> set (Kind obj)"
  shows "ReadObject_fields (Write_content obj)
           = Inr \<lparr>Kind = Kind obj, Size = strconv_Itoa (int (length (Data obj)) - 1),
                  Data = Data obj\<rparr>"
proof -
  let ?K = "Kind obj" and ?S = "strconv_Itoa (int (length (Data obj)) - 1)" and ?D = "Data obj"
  let ?f = "Write_content obj"
  have f1: "?f = ?K @ CHR '' '' # (?S @ CHR 0x00 # ?D)"
    by (simp add: Write_content_eq)
  have f2: "?f = (?K @ CHR '' '' # ?S) @ CHR 0x00 # ?D"
    by (simp add: Write_content_eq)
  have x: "bytes_IndexByte ?f (CHR '' '') = int (length ?K)"
    unfolding f1 using assms(1) by (rule IndexByte_first)
  have "CHR 0x00 \<notin> set (?K @ CHR '' '' # ?S)"
    using assms(2) Itoa_no_null [of "int (length ?D) - 1"] by simp
  then have "bytes_IndexByte ((?K @ CHR '' '' # ?S) @ CHR 0x00 # ?D) (CHR 0x00)
      = int (length (?K @ CHR '' '' # ?S))"
    by (rule IndexByte_first)
  then have y: "bytes_IndexByte ?f (CHR 0x00) = int (length ?K) + 1 + int (length ?S)"
    using f2 by simp
  have len: "length ?f = length ?K + 1 + length ?S + 1 + length ?D"
    by (simp add: f1)
  have s1: "slice ?f 0 (int (length ?K)) = Inr ?K"
    by (simp add: slice_def len) (simp add: f1)
  have n2: "nat (int (length ?K) + 1) = Suc (length ?K)" by simp
  have s2: "slice ?f (int (length ?K) + 1) (int (length ?K) + 1 + int (length ?S)) = Inr ?S"
    by (simp add: slice_def len n2) (simp add: f1)
  have "nat (int (length ?K) + 1 + int (length ?S) + 1) = length (?K @ CHR '' '' # ?S) + 1"
    by simp
  then have s3: "slice ?f (int (length ?K) + 1 + int (length ?S) + 1) (int (length ?f)) = Inr ?D"
    by (simp add: slice_def len) (simp add: f1)
  show ?thesis
    by (simp only: ReadObject_fields_def Let_def x y s1 s2 s3 sum.case)
qed

text \<open>A frame without its two delimiters in order makes a slice expression panic.\<close>

lemma ReadObject_fields_malformed:
  assumes "CHR '' '' \<notin> set f \<or> CHR 0x00 \<notin> set f
           \<or> bytes_IndexByte f (CHR 0x00) < bytes_IndexByte f (CHR '' '')"
  shows "ReadObject_fields f = Inl SliceBoundsOutOfRange"
proof -
  let ?x = "bytes_IndexByte f (CHR '' '')" and ?y = "bytes_IndexByte f (CHR 0x00)"
  have "?x = - 1 \<or> ?y = - 1 \<or> ?y < ?x"
    using assms IndexByte_notin by blast
  moreover have "- 1 \<le> ?x" by (rule IndexByte_lower)
  ultimately have "\<not> (0 \<le> ?x) \<or> \<not> (?x + 1 \<le> ?y)" by linarith
  then show ?thesis
    by (auto simp: ReadObject_fields_def Let_def slice_def split: sum.splits)
qed

section \<open>Addresses, errors and the unused field\<close>

lemma length_hex_EncodeToString: "length (hex_EncodeToString src) = 2 * length src"
  by (induction src) (simp_all add: hex_EncodeToString_def)

lemma hextable_nth: "k < 16 \<Longrightarrow> hextable ! k \<in> set ''0123456789abcdef''"
proof -
  assume "k < 16"
  then have "k < length hextable" by (simp add: hextable_def)
  then have "hextable ! k \<in> set hextable" by (rule nth_mem)
  then show ?thesis by (simp only: hextable_def)
qed

lemma set_hex_EncodeToString: "set (hex_EncodeToString src) \<subseteq> set ''0123456789abcdef''"
proof -
  have "of_char v div 16 < (16::nat)" for v :: char
  proof -
    have "(of_char v :: nat) < 16 * 16" using nat_of_char_less_256 [of v] by simp
    then show ?thesis by (simp only: less_mult_imp_div_less)
  qed
  moreover have "of_char v mod 16 < (16::nat)" for v :: char
    by simp
  ultimately show ?thesis
    unfolding hex_EncodeToString_def using hextable_nth by (induction src) auto
qed

lemma length_digest_bytes: "length (digest_bytes h) = 20"
  by (cases h) (simp add: be32_bytes_def)

lemma length_sha1_Sum: "length (sha1_Sum msg) = 20"
  by (simp add: sha1_Sum_def length_digest_bytes)

lemma Write_ok_addr:
  "Write z obj gitdir w = ((addr, None), w') \<Longrightarrow>
     addr = hex_EncodeToString (sha1_Sum (Write_content obj))"
  by (auto simp: Write_def Let_def split: prod.splits option.splits sum.splits)

text \<open>
  Claim C4. The address a successful \<^verbatim>\<open>Write\<close> returns is the hexadecimal rendering of the
  SHA-1 digest, 160 bits, of the whole frame (kind, space, size, null byte, payload): forty
  characters, each a digit or a lower-case letter from a to f. An object with the same
  kind and the same payload gets the same address, whatever the codec, the store and the
  state of the file system.
\<close>

theorem Write_address:
  assumes "Write z obj gitdir w = ((addr, None), w')"
    and "Kind obj2 = Kind obj" and "Data obj2 = Data obj"
    and "Write z2 obj2 gitdir2 w2 = ((addr2, None), w2')"
  shows "addr = hex_EncodeToString (sha1_Sum
           (Kind obj @ '' '' @ strconv_Itoa (int (length (Data obj)) - 1) @ [CHR 0x00] @ Data obj))
         \<and> length (sha1_Sum (Write_content obj)) * 8 = 160
         \<and> length addr = 40
         \<and> set addr \<subseteq> set ''0123456789abcdef''
         \<and> addr2 = addr"
proof -
  have a: "addr = hex_EncodeToString (sha1_Sum (Write_content obj))"
    using assms(1) by (rule Write_ok_addr)
  have "Write_content obj2 = Write_content obj"
    using assms(2,3) by (simp add: Write_content_def)
  then have "addr2 = addr"
    using Write_ok_addr [OF assms(4)] a by simp
  then show ?thesis
    using a set_hex_EncodeToString [of "sha1_Sum (Write_content obj)"]
    by (simp add: length_hex_EncodeToString length_sha1_Sum Write_content_eq)
qed


lemma os_Stat_File: "lookup w p = Inr n \<Longrightarrow> os_Stat p w = None"
  by (simp add: os_Stat_def)

text \<open>
  Claim C8. When the path names a regular file and the library rejects its contents, at
  the header or while reading the stream, \<^verbatim>\<open>ReadObjectFile\<close> returns no bytes and the
  error of the library, and \<^verbatim>\<open>ReadObject\<close> hands the same error to its caller with the zero
  object.
\<close>

theorem ReadObjectFile_corrupt:
  assumes "lookup w objectpath = Inr (File data)" and "zlib_decode z data = Inl err"
  shows "ReadObjectFile z objectpath w = ([], Some err)
         \<and> ReadObject z objectpath w = Inr (GitObject_zero, Some err)"
proof -
  have rf: "ioutil_ReadFile objectpath w = Inr data"
    using assms(1) by (simp add: ioutil_ReadFile_def)
  have "ReadObjectFile z objectpath w = ([], Some err)"
    using assms(2) rf by (auto simp: ReadObjectFile_def zlib_decode_def split: sum.splits)
  then show ?thesis
    using os_Stat_File [OF assms(1)] by (simp add: ReadObject_def os_IsNotExist_def)
qed

text \<open>
  Claim C10. Two objects with the same kind and the same payload, whatever their
  \<^verbatim>\<open>Size\<close> fields, have the same frame, and \<^verbatim>\<open>Write\<close> returns the same address and error
  and leaves the same file system for both.
\<close>

theorem Write_ignores_Size:
  assumes "Kind o1 = Kind o2" and "Data o1 = Data o2"
  shows "Write_content o1 = Write_content o2 \<and> Write z o1 gitdir w = Write z o2 gitdir w"
proof -
  have "Write_content o1 = Write_content o2"
    using assms by (simp add: Write_content_def)
  then show ?thesis by (simp add: Write_def)
qed

section \<open>Paths\<close>

subsection \<open>Splitting and joining at slashes\<close>

lemma split_slash_nonempty: "split_slash s \<noteq> []"
  by (induction s) (auto elim: add_char.elims)

lemma add_char_append: "xs \<noteq> [] \<Longrightarrow> add_char c (xs @ ys) = add_char c xs @ ys"
  by (cases xs) simp_all

lemma split_slash_append:
  "split_slash (x @ CHR ''/'' # y) = split_slash x @ split_slash y"
  by (induction x) (simp_all add: add_char_append split_slash_nonempty)

lemma split_slash_name: "CHR ''/'' \<notin> set e \<Longrightarrow> split_slash e = [e]"
  by (induction e) auto

lemma split_slash_join:
  "ns \<noteq> [] \<Longrightarrow> \<forall>e\<in>set ns. CHR ''/'' \<notin> set e \<Longrightarrow> split_slash (join_slash ns) = ns"
proof (induction ns rule: join_slash.induct)
  case 1
  then show ?case by simp
next
  case (2 e)
  then show ?case by (simp add: split_slash_name)
next
  case (3 e f es)
  then show ?case by (simp add: split_slash_append split_slash_name)
qed

lemma split_slash_no_slash: "e \<in> set (split_slash s) \<Longrightarrow> CHR ''/'' \<notin> set e"
proof (induction s arbitrary: e)
  case Nil
  then show ?case by simp
next
  case (Cons c s)
  show ?case
  proof (cases "c = CHR ''/''")
    case True
    with Cons show ?thesis by auto
  next
    case False
    obtain x xs where sp: "split_slash s = x # xs"
      using split_slash_nonempty [of s] by (cases "split_slash s") auto
    with Cons False show ?thesis by auto
  qed
qed


lemma split_slash_rooted: "split_slash (CHR ''/'' # s) = [] # split_slash s"
  by simp

lemma clean_step_empty: "clean_step r out [] = out"
  by (simp add: clean_step_def)

lemma clean_step_name: "normal_name e \<Longrightarrow> clean_step r out e = e # out"
  by (simp add: clean_step_def normal_name_def)

lemma foldl_clean_step_names:
  "list_all normal_name ns \<Longrightarrow> foldl (clean_step r) st ns = rev ns @ st"
  by (induction ns arbitrary: st) (simp_all add: clean_step_name)

lemma clean_step_True_normal:
  "list_all normal_name st \<Longrightarrow> CHR ''/'' \<notin> set e \<Longrightarrow> list_all normal_name (clean_step True st e)"
  by (cases st) (auto simp: clean_step_def normal_name_def)

lemma foldl_clean_step_True_normal:
  "list_all normal_name st \<Longrightarrow> \<forall>e\<in>set xs. CHR ''/'' \<notin> set e \<Longrightarrow>
     list_all normal_name (foldl (clean_step True) st xs)"
  by (induction xs arbitrary: st) (simp_all add: clean_step_True_normal)

lemma resolve_normal:
  "list_all normal_name st \<Longrightarrow> list_all normal_name (rev (foldl (clean_step True) st (split_slash p)))"
  using foldl_clean_step_True_normal [of st "split_slash p"] split_slash_no_slash [of _ p]
  by simp

lemma normal_name_no_slash: "list_all normal_name ns \<Longrightarrow> \<forall>e\<in>set ns. CHR ''/'' \<notin> set e"
  by (auto simp: list_all_iff normal_name_def)

text \<open>The components of a rooted path made of names are these names.\<close>

lemma foldl_split_rooted_names:
  assumes "list_all normal_name ns"
  shows "foldl (clean_step True) [] (split_slash (CHR ''/'' # join_slash ns)) = rev ns"
proof (cases "ns = []")
  case True
  then show ?thesis by (simp add: clean_step_empty)
next
  case False
  then have "split_slash (join_slash ns) = ns"
    using assms normal_name_no_slash by (simp add: split_slash_join)
  then show ?thesis
    using assms by (simp add: clean_step_empty foldl_clean_step_names)
qed

lemma IsAbs_rooted: "filepath_IsAbs (CHR ''/'' # s)"
  by (simp add: filepath_IsAbs_def)

lemma path_Clean_rooted_names:
  "list_all normal_name ns \<Longrightarrow> path_Clean (CHR ''/'' # join_slash ns) = CHR ''/'' # join_slash ns"
  by (simp add: path_Clean_def IsAbs_rooted foldl_split_rooted_names Let_def del: split_slash.simps)

lemma abs_names_rooted_names:
  "list_all normal_name ns \<Longrightarrow> abs_names w (CHR ''/'' # join_slash ns) = Inr ns"
  by (simp add: abs_names_def IsAbs_rooted foldl_split_rooted_names del: split_slash.simps)

lemma clean_step_False_rel:
  "list_all rel_name st \<Longrightarrow> CHR ''/'' \<notin> set e \<Longrightarrow> list_all rel_name (clean_step False st e)"
  by (cases st) (auto simp: clean_step_def rel_name_def)

lemma foldl_clean_step_False_rel:
  "list_all rel_name st \<Longrightarrow> \<forall>e\<in>set xs. CHR ''/'' \<notin> set e \<Longrightarrow>
     list_all rel_name (foldl (clean_step False) st xs)"
  by (induction xs arbitrary: st) (simp_all add: clean_step_False_rel)

lemma clean_step_True_rel_top:
  "rel_name t \<Longrightarrow> t \<noteq> ''..'' \<Longrightarrow> clean_step True (clean_step True X t) ''..'' = X"
  by (simp add: clean_step_def rel_name_def)

lemma resolve_clean_step:
  assumes "list_all rel_name acc"
  shows "foldl (clean_step True) st (rev (clean_step False acc e))
           = clean_step True (foldl (clean_step True) st (rev acc)) e"
proof (cases "e = [] \<or> e = ''.''")
  case True
  then show ?thesis by (auto simp: clean_step_def)
next
  case skip: False
  show ?thesis
  proof (cases "e = ''..''")
    case False
    with skip have "clean_step False acc e = e # acc" by (simp add: clean_step_def)
    then show ?thesis by simp
  next
    case dd: True
    show ?thesis
    proof (cases acc)
      case Nil
      with dd show ?thesis by (simp add: clean_step_def)
    next
      case (Cons t ts)
      show ?thesis
      proof (cases "t = ''..''")
        case True
        with dd Cons have "clean_step False acc e = ''..'' # acc" by (simp add: clean_step_def)
        with dd show ?thesis by simp
      next
        case False
        with dd Cons have "clean_step False acc e = ts" by (simp add: clean_step_def)
        moreover have "rel_name t" using assms Cons by simp
        ultimately show ?thesis
          using dd Cons False by (simp add: clean_step_True_rel_top)
      qed
    qed
  qed
qed

lemma resolve_cleaned:
  "list_all rel_name acc \<Longrightarrow> \<forall>e\<in>set xs. CHR ''/'' \<notin> set e \<Longrightarrow>
     foldl (clean_step True) st (rev (foldl (clean_step False) acc xs))
       = foldl (clean_step True) (foldl (clean_step True) st (rev acc)) xs"
proof (induction xs arbitrary: acc)
  case Nil
  then show ?case by simp
next
  case (Cons e xs)
  have "list_all rel_name (clean_step False acc e)"
    using Cons.prems by (simp add: clean_step_False_rel)
  then have "foldl (clean_step True) st (rev (foldl (clean_step False) (clean_step False acc e) xs))
      = foldl (clean_step True) (foldl (clean_step True) st (rev (clean_step False acc e))) xs"
    using Cons.IH Cons.prems by simp
  then show ?case
    using Cons.prems by (simp add: resolve_clean_step)
qed


lemma join_slash_hd:
  "ns \<noteq> [] \<Longrightarrow> hd ns \<noteq> [] \<Longrightarrow> join_slash ns \<noteq> [] \<and> hd (join_slash ns) = hd (hd ns)"
  by (induction ns rule: join_slash.induct) simp_all

lemma not_IsAbs_join:
  assumes "ns \<noteq> []" and "hd ns \<noteq> []" and "CHR ''/'' \<notin> set (hd ns)"
  shows "\<not> filepath_IsAbs (join_slash ns)"
proof -
  have "hd (hd ns) \<in> set (hd ns)" using assms(2) by simp
  then have "hd (hd ns) \<noteq> CHR ''/''" using assms(3) by auto
  then show ?thesis using join_slash_hd [OF assms(1,2)] by (simp add: filepath_IsAbs_def)
qed

lemma Abs_Join_names:
  assumes ok: "cwd_ok w" and ns: "list_all normal_name ns" and ne: "ns \<noteq> []"
    and abs: "filepath_Abs (path_Join (g # ns)) w = Inr p"
  shows "\<exists>root. abs_names w g = Inr root \<and> list_all normal_name root
           \<and> p = CHR ''/'' # join_slash (root @ ns)"
proof -
  obtain n ns' where nsC: "ns = n # ns'" using ne by (cases ns) auto
  have n: "normal_name n" using ns nsC by simp
  then have nne: "n \<noteq> []" and nsl: "CHR ''/'' \<notin> set n" by (simp_all add: normal_name_def)
  have noslash: "\<forall>e\<in>set ns. CHR ''/'' \<notin> set e" using ns by (rule normal_name_no_slash)
  define s0 where "s0 = (if g = [] then join_slash ns else g @ CHR ''/'' # join_slash ns)"
  have J: "path_Join (g # ns) = path_Clean s0"
    using nne by (simp add: path_Join_def s0_def nsC)
  have jn: "join_slash ns \<noteq> []" "\<not> filepath_IsAbs (join_slash ns)"
    using join_slash_hd [of ns] not_IsAbs_join [of ns] nne nsl by (simp_all add: nsC)
  have s0ne: "s0 \<noteq> []" using jn by (simp add: s0_def)
  have abs0: "filepath_IsAbs s0 = filepath_IsAbs g"
    using jn by (auto simp: s0_def filepath_IsAbs_def)
  have fold0: "foldl (clean_step r) st (split_slash s0) = rev ns @ foldl (clean_step r) st (split_slash g)"
    for r st
    using ne noslash ns
    by (simp add: s0_def split_slash_append split_slash_join foldl_clean_step_names clean_step_empty)
  show ?thesis
  proof (cases "filepath_IsAbs g")
    case True
    define root where "root = rev (foldl (clean_step True) [] (split_slash g))"
    have rn: "list_all normal_name root"
      unfolding root_def using resolve_normal [of "[]" g] by simp
    then have all: "list_all normal_name (root @ ns)" using ns by simp
    have "path_Clean s0 = CHR ''/'' # join_slash (root @ ns)"
      using True s0ne abs0 by (simp add: path_Clean_def Let_def fold0 root_def)
    then have "p = CHR ''/'' # join_slash (root @ ns)"
      using abs J all by (simp add: filepath_Abs_def IsAbs_rooted path_Clean_rooted_names)
    moreover have "abs_names w g = Inr root" using True by (simp add: abs_names_def root_def)
    ultimately show ?thesis using rn by blast
  next
    case False
    define out where "out = rev (foldl (clean_step False) [] (split_slash s0))"
    have out: "out = rev (foldl (clean_step False) [] (split_slash g)) @ ns"
      by (simp add: out_def fold0)
    then have outne: "out \<noteq> []" using ne by simp
    have "list_all rel_name (foldl (clean_step False) [] (split_slash s0))"
      using foldl_clean_step_False_rel [of "[]" "split_slash s0"] split_slash_no_slash [of _ s0]
      by simp
    then have rel: "list_all rel_name out" by (simp add: out_def)
    then have "rel_name (hd out)" using outne by (cases out) simp_all
    then have hd: "hd out \<noteq> []" "CHR ''/'' \<notin> set (hd out)" by (simp_all add: rel_name_def)
    have outsl: "\<forall>e\<in>set out. CHR ''/'' \<notin> set e"
      using rel by (auto simp: list_all_iff rel_name_def)
    have Jout: "path_Join (g # ns) = join_slash out"
      using False s0ne abs0 outne by (simp add: J path_Clean_def Let_def out_def)
    have nabs: "\<not> filepath_IsAbs (join_slash out)"
      using not_IsAbs_join [OF outne hd] .
    have abs': "filepath_Abs (join_slash out) w = Inr p"
      using abs by (simp only: Jout)
    obtain c where c: "cwd w = Some c"
      using abs' nabs by (cases "cwd w") (simp_all add: filepath_Abs_def os_Getwd_def)
    have cn: "list_all normal_name c" using ok c by (simp add: cwd_ok_def)
    define root where "root = rev (foldl (clean_step True) (rev c) (split_slash g))"
    have rn: "list_all normal_name root"
      unfolding root_def using resolve_normal [of "rev c" g] cn by simp
    have p: "p = path_Clean ((CHR ''/'' # join_slash c) @ CHR ''/'' # join_slash out)"
      using abs' nabs c by (simp add: filepath_Abs_def os_Getwd_def path_Join_def)
    have "foldl (clean_step True) []
            (split_slash ((CHR ''/'' # join_slash c) @ CHR ''/'' # join_slash out))
          = foldl (clean_step True) (rev c) out"
      using foldl_split_rooted_names [OF cn] split_slash_join [OF outne outsl]
      by (simp only: split_slash_append foldl_append)
    also have "\<dots> = foldl (clean_step True) (rev c) (split_slash s0)"
      unfolding out_def
      using resolve_cleaned [of "[]" "split_slash s0" "rev c"] split_slash_no_slash [of _ s0]
      by simp
    also have "\<dots> = rev ns @ foldl (clean_step True) (rev c) (split_slash g)"
      by (rule fold0)
    finally have "p = CHR ''/'' # join_slash (root @ ns)"
      unfolding p root_def
      by (simp add: path_Clean_def Let_def IsAbs_rooted del: split_slash.simps)
    moreover have "abs_names w g = Inr root" using False c by (simp add: abs_names_def root_def)
    ultimately show ?thesis using rn by blast
  qed
qed

section \<open>Where the object is stored\<close>

lemma hex_name:
  assumes "set e \<subseteq> set ''0123456789abcdef''" and "e \<noteq> []"
  shows "normal_name e"
proof -
  have "CHR ''.'' \<notin> set e" and "CHR ''/'' \<notin> set e" using assms(1) by auto
  then show ?thesis using assms(2) by (auto simp: normal_name_def)
qed

lemma address_names:
  assumes "addr = hex_EncodeToString (sha1_Sum m)"
  shows "list_all normal_name [''objects'', take 2 addr, drop 2 addr]"
    and "length (take 2 addr) = 2" and "length (drop 2 addr) = 38"
proof -
  have len: "length addr = 40"
    by (simp add: assms length_hex_EncodeToString length_sha1_Sum)
  have chars: "set addr \<subseteq> set ''0123456789abcdef''"
    unfolding assms by (rule set_hex_EncodeToString)
  have "set (take 2 addr) \<subseteq> set addr" by (rule set_take_subset)
  moreover have "set (drop 2 addr) \<subseteq> set addr" by (rule set_drop_subset)
  moreover have "take 2 addr \<noteq> []" "drop 2 addr \<noteq> []" using len by auto
  ultimately have "normal_name (take 2 addr)" "normal_name (drop 2 addr)"
    using chars by (blast intro: hex_name)+
  moreover have "normal_name ''objects''" by (simp add: normal_name_def)
  ultimately show "list_all normal_name [''objects'', take 2 addr, drop 2 addr]" by simp
  show "length (take 2 addr) = 2" "length (drop 2 addr) = 38" using len by simp_all
qed

lemma Write_ok_steps:
  assumes "Write z obj gitdir w = ((addr, None), w')"
  obtains w1 nFilePath nFile w2 where
    "addr = hex_EncodeToString (sha1_Sum (Write_content obj))"
    "os_MkdirAll (path_Join [gitdir, ''objects'', take 2 addr]) w = (None, w1)"
    "filepath_Abs (path_Join [gitdir, ''objects'', take 2 addr, drop 2 addr]) w1 = Inr nFilePath"
    "os_Create nFilePath w1 = (Inr nFile, w2)"
    "File_Write nFile (Compress z (Write_content obj)) w2 = (None, w')"
  using assms unfolding Write_def Let_def
  by (auto split: prod.splits option.splits sum.splits)

lemma os_Mkdir_cwd: "os_Mkdir p w = (r, w1) \<Longrightarrow> cwd w1 = cwd w"
  by (auto simp: os_Mkdir_def split: sum.splits option.splits)

lemma Mkdir_checked_cwd: "Mkdir_checked p w = (r, w1) \<Longrightarrow> cwd w1 = cwd w"
  by (auto simp: Mkdir_checked_def dest: os_Mkdir_cwd split: prod.splits option.splits sum.splits node.splits)

lemma os_MkdirAll_cwd: "os_MkdirAll p w = (r, w1) \<Longrightarrow> cwd w1 = cwd w"
proof (induction p w arbitrary: r w1 rule: os_MkdirAll.induct)
  case (1 path w)
  show ?case
  proof (cases "lookup w path")
    case (Inr n)
    with "1.prems" show ?thesis
      by (cases n) (simp_all add: os_MkdirAll.simps [of path w])
  next
    case (Inl e)
    show ?thesis
    proof (cases "1 < parent_end path")
      case False
      with Inl "1.prems" show ?thesis
        by (simp add: os_MkdirAll.simps [of path w] Mkdir_checked_cwd)
    next
      case True
      obtain r0 w0 where up: "os_MkdirAll (take (parent_end path - 1) path) w = (r0, w0)"
        by (cases "os_MkdirAll (take (parent_end path - 1) path) w") auto
      have c0: "cwd w0 = cwd w" using "1.IH" [OF Inl True up] .
      show ?thesis
      proof (cases r0)
        case (Some err)
        with Inl True up "1.prems" c0 show ?thesis
          by (simp add: os_MkdirAll.simps [of path w])
      next
        case None
        with Inl True up "1.prems" have "Mkdir_checked path w0 = (r, w1)"
          by (simp add: os_MkdirAll.simps [of path w])
        then show ?thesis using c0 Mkdir_checked_cwd by simp
      qed
    qed
  qed
qed

lemma abs_names_cwd: "cwd w1 = cwd w \<Longrightarrow> abs_names w1 p = abs_names w p"
  by (simp add: abs_names_def)

text \<open>The walk along names that are well formed arrives at these names.\<close>

lemma walk_names:
  "list_all normal_name ns \<Longrightarrow> walk w cur ns = Inr cs \<Longrightarrow> cs = cur @ ns"
proof (induction ns arbitrary: cur)
  case Nil
  then show ?case by simp
next
  case (Cons c ns)
  then have "walk w (cur @ [c]) ns = Inr cs"
    by (auto simp: normal_name_def split: option.splits node.splits if_splits)
  then have "cs = (cur @ [c]) @ ns" using Cons.IH [of "cur @ [c]"] Cons.prems by simp
  then show ?case by simp
qed

lemma strip_empty_tail_names:
  assumes "list_all normal_name ns" and "ns \<noteq> []"
  shows "strip_empty_tail (x # ns) = x # ns"
proof -
  have "normal_name (last ns)" using assms by (simp add: list_all_iff)
  then have "hd (rev ns @ [x]) \<noteq> []"
    using assms(2) by (simp add: hd_rev normal_name_def)
  then have "dropWhile (\<lambda>c. c = []) (rev ns @ [x]) = rev ns @ [x]"
    by (simp add: dropWhile_eq_self_iff)
  then show ?thesis by (simp add: strip_empty_tail_def)
qed

lemma split_rooted_names:
  "list_all normal_name ns \<Longrightarrow> ns \<noteq> [] \<Longrightarrow> split_slash (CHR ''/'' # join_slash ns) = [] # ns"
  using normal_name_no_slash [of ns] by (simp add: split_slash_join)

lemma walk_rooted:
  "walk w [] ([] # ns) = walk w [] ns"
  by (simp add: node_at_def)

lemma os_Create_result:
  assumes "os_Create p w = (Inr h, w2)"
  shows "resolve_names w p (strip_empty_tail (split_slash p)) = Inr h"
    and "cwd w2 = cwd w" and "q \<noteq> h \<Longrightarrow> fs w2 q = fs w q"
  using assms
  by (auto simp: os_Create_def split: sum.splits if_splits option.splits node.splits)

lemma os_Create_handle:
  assumes "os_Create (CHR ''/'' # join_slash ns) w = (Inr h, w2)"
    and "list_all normal_name ns" and "ns \<noteq> []"
  shows "h = ns" and "walk w [] ns = Inr ns"
proof -
  let ?p = "CHR ''/'' # join_slash ns"
  have sp: "split_slash ?p = [] # ns" using assms(2,3) by (rule split_rooted_names)
  have st: "strip_empty_tail ([] # ns) = [] # ns" using assms(2,3) by (rule strip_empty_tail_names)
  have "resolve_names w ?p ([] # ns) = Inr h"
    using os_Create_result(1) [OF assms(1)] by (simp only: sp st)
  then have wk: "walk w [] ns = Inr h"
    by (auto simp: resolve_names_def start_dir_def IsAbs_rooted walk_rooted split: option.splits
        simp del: walk.simps)
  then show "h = ns" using walk_names [OF assms(2), of w "[]" h] by simp
  then show "walk w [] ns = Inr ns" using wk by simp
qed

lemma File_Write_ok: "File_Write h d w = (None, w3) \<Longrightarrow> fs w3 h = Some (File d)"
  by (auto simp: File_Write_def split: if_splits)

text \<open>
  Claim C5. After a successful \<^verbatim>\<open>Write\<close> the compressed frame is the content of the file two
  levels below the directory \<^verbatim>\<open>objects\<close> of the store: the directory is named by the first
  two characters of the address and the file by the other thirty-eight. The store is the
  directory the root resolves to, from the working directory when the root is relative.
\<close>

theorem Write_path:
  assumes "cwd_ok w" and "Write z obj gitdir w = ((addr, None), w')"
  shows "case abs_names w gitdir of
           Inl e \<Rightarrow> False
         | Inr root \<Rightarrow>
             fs w' (root @ [''objects'', take 2 addr, drop 2 addr])
               = Some (File (Compress z (Write_content obj)))
             \<and> length (take 2 addr) = 2 \<and> length (drop 2 addr) = 38"
proof -
  from assms(2) obtain w1 nFilePath nFile w2 where
    addr: "addr = hex_EncodeToString (sha1_Sum (Write_content obj))"
    and mk: "os_MkdirAll (path_Join [gitdir, ''objects'', take 2 addr]) w = (None, w1)"
    and ab: "filepath_Abs (path_Join [gitdir, ''objects'', take 2 addr, drop 2 addr]) w1 = Inr nFilePath"
    and cr: "os_Create nFilePath w1 = (Inr nFile, w2)"
    and wr: "File_Write nFile (Compress z (Write_content obj)) w2 = (None, w')"
    by (rule Write_ok_steps)
  let ?ns = "[''objects'', take 2 addr, drop 2 addr]"
  have names: "list_all normal_name ?ns" and l2: "length (take 2 addr) = 2"
    and l38: "length (drop 2 addr) = 38"
    using address_names [OF addr] by simp_all
  have cwd1: "cwd w1 = cwd w" using mk by (rule os_MkdirAll_cwd)
  then have ok1: "cwd_ok w1" using assms(1) by (simp add: cwd_ok_def)
  obtain root where root: "abs_names w1 gitdir = Inr root" and rn: "list_all normal_name root"
    and p: "nFilePath = CHR ''/'' # join_slash (root @ ?ns)"
    using Abs_Join_names [OF ok1 names _ ab] by auto
  have "list_all normal_name (root @ ?ns)" using rn names by simp
  then have "nFile = root @ ?ns"
    using os_Create_handle(1) [of "root @ ?ns" w1 nFile w2] cr p by simp
  then have "fs w' (root @ ?ns) = Some (File (Compress z (Write_content obj)))"
    using File_Write_ok [OF wr] by simp
  moreover have "abs_names w gitdir = Inr root" using root abs_names_cwd [OF cwd1] by simp
  ultimately show ?thesis using l2 l38 by simp
qed

section \<open>Reading back what was written\<close>

text \<open>The absolute path that \<^verbatim>\<open>filepath.Abs\<close> gives has the names of the path it is given.\<close>

lemma abs_names_Abs:
  assumes "cwd_ok w" and "filepath_Abs q w = Inr p"
  shows "abs_names w p = abs_names w q"
proof (cases "filepath_IsAbs q")
  case True
  define root where "root = rev (foldl (clean_step True) [] (split_slash q))"
  have rn: "list_all normal_name root"
    unfolding root_def using resolve_normal [of "[]" q] by simp
  have "q \<noteq> []" using True by (auto simp: filepath_IsAbs_def)
  then have "p = CHR ''/'' # join_slash root"
    using assms(2) True by (simp add: filepath_Abs_def path_Clean_def Let_def root_def)
  then have "abs_names w p = Inr root" using rn by (simp add: abs_names_rooted_names)
  moreover have "abs_names w q = Inr root" using True by (simp add: abs_names_def root_def)
  ultimately show ?thesis by simp
next
  case False
  obtain c where c: "cwd w = Some c"
    using assms(2) False by (cases "cwd w") (simp_all add: filepath_Abs_def os_Getwd_def)
  have cn: "list_all normal_name c" using assms(1) c by (simp add: cwd_ok_def)
  define root where "root = rev (foldl (clean_step True) (rev c) (split_slash q))"
  have rn: "list_all normal_name root"
    unfolding root_def using resolve_normal [of "rev c" q] cn by simp
  have p: "p = path_Clean ((CHR ''/'' # join_slash c) @ CHR ''/'' # q)"
    using assms(2) False c by (simp add: filepath_Abs_def os_Getwd_def path_Join_def)
  have "foldl (clean_step True) [] (split_slash ((CHR ''/'' # join_slash c) @ CHR ''/'' # q))
          = foldl (clean_step True) (rev c) (split_slash q)"
    using foldl_split_rooted_names [OF cn]
    by (simp only: split_slash_append foldl_append)
  then have "p = CHR ''/'' # join_slash root"
    unfolding p root_def
    by (simp add: path_Clean_def Let_def IsAbs_rooted del: split_slash.simps)
  then have "abs_names w p = Inr root" using rn by (simp add: abs_names_rooted_names)
  moreover have "abs_names w q = Inr root" using False c by (simp add: abs_names_def root_def)
  ultimately show ?thesis by simp
qed

lemma File_Write_rest:
  assumes "File_Write h d w = (r, w3)"
  shows "cwd w3 = cwd w" and "q \<noteq> h \<Longrightarrow> fs w3 q = fs w q"
  using assms by (auto simp: File_Write_def split: if_splits)

lemma take_proper: "k < length cs \<Longrightarrow> take k cs \<noteq> cs"
  by (metis length_take min.absorb4 nat_neq_iff)

text \<open>A walk looks only at the places above the one it arrives at.\<close>

lemma walk_agree:
  assumes "list_all normal_name ns" and "walk w cur ns = Inr cs"
    and "\<And>k. k < length (cur @ ns) \<Longrightarrow>
           node_at w' (take k (cur @ ns)) = node_at w (take k (cur @ ns))"
  shows "walk w' cur ns = Inr cs"
  using assms
proof (induction ns arbitrary: cur)
  case Nil
  then show ?case by simp
next
  case (Cons c ns)
  have "node_at w' (take (length cur) (cur @ c # ns)) = node_at w (take (length cur) (cur @ c # ns))"
    by (rule Cons.prems(3)) simp
  then have same: "node_at w' cur = node_at w cur" by simp
  have c: "c \<noteq> []" "c \<noteq> ''.''" "c \<noteq> ''..''"
    using Cons.prems(1) by (auto simp: normal_name_def)
  have down: "walk w (cur @ [c]) ns = Inr cs" and dir: "node_at w cur = Some Dir"
    and short: "\<not> 255 < length c"
    using Cons.prems(2) c by (auto split: option.splits node.splits if_splits)
  have "walk w' (cur @ [c]) ns = Inr cs"
  proof (rule Cons.IH [OF _ down])
    show "list_all normal_name ns" using Cons.prems(1) by simp
  next
    fix k assume "k < length ((cur @ [c]) @ ns)"
    then show "node_at w' (take k ((cur @ [c]) @ ns)) = node_at w (take k ((cur @ [c]) @ ns))"
      using Cons.prems(3) [of k] by simp
  qed
  then show ?case using same dir short c by simp
qed

text \<open>
  What comes back from the store: the kind and the payload as they were written, whatever
  bytes the payload has, and, for the size, the length of the payload minus one. The file
  is read by its absolute path; the codec is asked only to give back this frame from what
  it made of it.
\<close>

lemma Write_then_ReadObject:
  assumes ok: "cwd_ok w"
    and kind: "CHR '' '' \<notin> set (Kind obj)" "CHR 0x00 \<notin> set (Kind obj)"
    and wr: "Write z obj gitdir w = ((addr, None), w')"
    and rt: "zlib_decode z (Compress z (Write_content obj)) = Inr (Write_content obj)"
  shows "case abs_names w gitdir of
           Inl e \<Rightarrow> False
         | Inr root \<Rightarrow>
             ReadObject z (CHR ''/'' # join_slash (root @ [''objects'', take 2 addr, drop 2 addr])) w'
               = Inr (\<lparr>Kind = Kind obj, Size = strconv_Itoa (int (length (Data obj)) - 1),
                       Data = Data obj\<rparr>, None)"
proof -
  from wr obtain w1 nFilePath nFile w2 where
    addr: "addr = hex_EncodeToString (sha1_Sum (Write_content obj))"
    and mk: "os_MkdirAll (path_Join [gitdir, ''objects'', take 2 addr]) w = (None, w1)"
    and ab: "filepath_Abs (path_Join [gitdir, ''objects'', take 2 addr, drop 2 addr]) w1 = Inr nFilePath"
    and cr: "os_Create nFilePath w1 = (Inr nFile, w2)"
    and fw: "File_Write nFile (Compress z (Write_content obj)) w2 = (None, w')"
    by (rule Write_ok_steps)
  let ?ns = "[''objects'', take 2 addr, drop 2 addr]"
  let ?d = "Compress z (Write_content obj)"
  have names: "list_all normal_name ?ns" using address_names [OF addr] by simp
  have cwd1: "cwd w1 = cwd w" using mk by (rule os_MkdirAll_cwd)
  then have ok1: "cwd_ok w1" using ok by (simp add: cwd_ok_def)
  obtain root where root: "abs_names w1 gitdir = Inr root" and rn: "list_all normal_name root"
    and p: "nFilePath = CHR ''/'' # join_slash (root @ ?ns)"
    using Abs_Join_names [OF ok1 names _ ab] by auto
  let ?N = "root @ ?ns"
  let ?p = "CHR ''/'' # join_slash ?N"
  have N: "list_all normal_name ?N" "?N \<noteq> []" using rn names by simp_all
  have cr': "os_Create ?p w1 = (Inr nFile, w2)" using cr p by simp
  have h: "nFile = ?N" and wk: "walk w1 [] ?N = Inr ?N"
    using os_Create_handle [OF cr' N] by simp_all
  have rest: "fs w' q = fs w1 q" if "q \<noteq> ?N" for q
    using that os_Create_result(3) [OF cr'] File_Write_rest(2) [OF fw] h by simp
  have agree: "node_at w' (take k ?N) = node_at w1 (take k ?N)" if "k < length ?N" for k
  proof -
    have "take k ?N \<noteq> ?N" using that by (rule take_proper)
    then have "fs w' (take k ?N) = fs w1 (take k ?N)" by (rule rest)
    then show ?thesis by (simp only: node_at_def)
  qed
  have "walk w' [] ?N = Inr ?N"
  proof (rule walk_agree [OF N(1) wk])
    fix k assume "k < length ([] @ ?N)"
    then have "k < length ?N" by simp
    then have "node_at w' (take k ?N) = node_at w1 (take k ?N)" by (rule agree)
    then show "node_at w' (take k ([] @ ?N)) = node_at w1 (take k ([] @ ?N))"
      by (simp only: append_Nil)
  qed
  moreover have "path_errno w1 ?p = None"
    using os_Create_result(1) [OF cr'] by (auto simp: resolve_names_def split: option.splits)
  then have "path_errno w' ?p = None"
    by (simp add: path_errno_def IsAbs_rooted split: if_splits)
  moreover have "split_slash ?p = [] # ?N" using N by (rule split_rooted_names)
  ultimately have rs: "resolve w' ?p = Inr ?N"
    by (simp add: resolve_def resolve_names_def start_dir_def IsAbs_rooted walk_rooted
        del: walk.simps split_slash.simps)
  have "fs w' ?N = Some (File ?d)" using File_Write_ok [OF fw] h by simp
  then have "node_at w' ?N = Some (File ?d)" using N(2) by (simp add: node_at_def)
  then have lk: "lookup w' ?p = Inr (File ?d)"
    using rs by (simp add: lookup_def del: split_slash.simps)
  then have rf: "ioutil_ReadFile ?p w' = Inr ?d" by (simp add: ioutil_ReadFile_def)
  have "ReadObjectFile z ?p w' = (Write_content obj, None)"
    using rt rf by (auto simp: ReadObjectFile_def zlib_decode_def split: sum.splits)
  then have "ReadObject z ?p w'
      = Inr (\<lparr>Kind = Kind obj, Size = strconv_Itoa (int (length (Data obj)) - 1),
              Data = Data obj\<rparr>, None)"
    using os_Stat_File [OF lk] ReadObject_fields_Write_content [OF kind]
    by (simp add: ReadObject_def os_IsNotExist_def del: split_slash.simps)
  moreover have "abs_names w gitdir = Inr root" using root abs_names_cwd [OF cwd1] by simp
  ultimately show ?thesis by simp
qed

section \<open>The program on concrete inputs\<close>

subsection \<open>Evaluation\<close>

text \<open>
  The rules below let the simplifier run the definitions on literals: numerals of
  \<^typ>\<open>u32\<close> are kept below \<open>2 ^ 32\<close>, and counted recursions are unfolded at numerals.
\<close>

lemma replicate_numeral: "replicate (numeral k) x = x # replicate (pred_numeral k) x"
  by (simp add: numeral_eq_Suc)

lemma u32_mod: "(word_of_nat (m mod 2 ^ 32) :: u32) = word_of_nat m"
  by (simp add: word_of_nat_eq_iff take_bit_eq_mod)

lemma u32_reduce:
  "4294967296 \<le> (numeral n :: nat) \<Longrightarrow>
     (numeral n :: u32) = of_nat (numeral n mod 4294967296)"
proof -
  have "(numeral n :: u32) = word_of_nat (numeral n)" by simp
  also have "\<dots> = word_of_nat (numeral n mod 2 ^ 32)" by (simp only: u32_mod)
  also have "(2::nat) ^ 32 = 4294967296" by simp
  finally show ?thesis .
qed

lemma schedule_numeral: "schedule (numeral k) w = hd w # schedule (pred_numeral k) (next_window w)"
  by (simp add: numeral_eq_Suc)

lemmas sha1_eval = sha1_Sum_def padding_def be64_bytes_def be32_bytes_def byte_of_def char_of_def
  bit_Suc_0_iff replicate_numeral block_def schedule_numeral next_window_def rotl_def f_ch_def
  f_parity_def f_maj_def init_def hextable_def hex_EncodeToString_def Let_def u32_reduce blocks.simps

lemmas Itoa_eval = strconv_Itoa_def format_nat.simps digit_char_def

lemmas path_eval = path_Join_def path_Clean_def filepath_IsAbs_def clean_step_def abs_names_def
  filepath_Abs_def os_Getwd_def

lemmas os_eval = os_MkdirAll.simps Mkdir_checked_def os_Mkdir_def parent_end_def
  IsPathSeparator_def os_Create_def File_Write_def node_at_def lookup_def resolve_def
  resolve_names_def path_errno_def start_dir_def strip_empty_tail_def os_Stat_def os_IsNotExist_def
  ioutil_ReadFile_def

lemmas zlib_eval = stored_zlib_def stored_Compress_def stored_blocks.simps inflate_stored.simps
  stored_ReadAll_def adler32_def be32_nat_def le16_nat_def byte_of_def char_of_def bit_Suc_0_iff
  zlib_decode_def

lemmas read_eval = ReadObject_def ReadObjectFile_def ReadObject_fields_def slice_def
  GitObject_zero_def

subsection \<open>Frames\<close>

text \<open>
  Claim C1. Building the frame of a commit with an empty payload and splitting it again
  gives back the kind and the payload, and the size \<^verbatim>\<open>-1\<close>; the length of the payload is
  rendered \<^verbatim>\<open>0\<close>.
\<close>

theorem codec_size_off_by_one:
  "ReadObject_fields (Write_content empty_commit)
     = Inr \<lparr>Kind = ''commit'', Size = ''-1'', Data = []\<rparr>
   \<and> strconv_Itoa (int (length (Data empty_commit))) = ''0''"
  by (simp add: empty_commit_def Write_content_def Itoa_eval ReadObject_fields_def slice_def)

text \<open>
  Claim C6. Three files whose streams are valid and whose frames have no space, no null
  byte, and the null byte before the space: \<^verbatim>\<open>ReadObject\<close> does not return on any of them,
  a slice expression is out of range.
\<close>

theorem ReadObject_malformed_panics:
  "ReadObject stored_zlib ''nospace'' broken_world = Inl SliceBoundsOutOfRange
   \<and> ReadObject stored_zlib ''nonull'' broken_world = Inl SliceBoundsOutOfRange
   \<and> ReadObject stored_zlib ''nullfirst'' broken_world = Inl SliceBoundsOutOfRange"
  by (simp add: broken_world_def path_eval os_eval zlib_eval read_eval)

subsection \<open>Errors, the size field and the unused field\<close>





theorem ReadObjectFile_corrupt_witness:
  "lookup broken_world ''/srv/garbage'' = Inr (File ''not compressed'')
   \<and> zlib_decode stored_zlib ''not compressed'' = Inl ErrHeader
   \<and> ReadObjectFile stored_zlib ''/srv/garbage'' broken_world = ([], Some ErrHeader)
   \<and> ReadObject stored_zlib ''/srv/garbage'' broken_world = Inr (GitObject_zero, Some ErrHeader)
   \<and> ReadObjectFile stored_zlib ''truncated'' broken_world = ([], Some ErrUnexpectedEOF)
   \<and> ReadObject stored_zlib ''truncated'' broken_world = Inr (GitObject_zero, Some ErrUnexpectedEOF)
   \<and> ReadObjectFile stored_zlib ''badsum'' broken_world = ([], Some ErrChecksum)
   \<and> ReadObject stored_zlib ''badsum'' broken_world = Inr (GitObject_zero, Some ErrChecksum)"
proof -
  let ?t = "take 9 (stored_Compress ''blob'')"
  let ?b = "butlast (stored_Compress ''blob'') @ [CHR 0x00]"
  have l1: "lookup broken_world ''/srv/garbage'' = Inr (File ''not compressed'')"
    by (simp add: broken_world_def path_eval os_eval)
  have d1: "zlib_decode stored_zlib ''not compressed'' = Inl ErrHeader"
    by (simp add: zlib_eval)
  have l2: "lookup broken_world ''truncated'' = Inr (File ?t)"
    by (simp add: broken_world_def path_eval os_eval)
  have d2: "zlib_decode stored_zlib ?t = Inl ErrUnexpectedEOF"
    by (simp add: zlib_eval)
  have l3: "lookup broken_world ''badsum'' = Inr (File ?b)"
    by (simp add: broken_world_def path_eval os_eval)
  have d3: "zlib_decode stored_zlib ?b = Inl ErrChecksum"
    by (simp add: zlib_eval)
  show ?thesis
    using ReadObjectFile_corrupt [OF l1 d1] ReadObjectFile_corrupt [OF l2 d2]
      ReadObjectFile_corrupt [OF l3 d3] l1 d1
    by simp
qed

theorem Write_size_field_witness:
  "Write_content blob_hello = ''blob 4'' @ [CHR 0x00] @ ''hello''
   \<and> size_field (length (Kind blob_hello)) (Write_content blob_hello) = ''4''
   \<and> decimal_value ''4'' = Some (int (length (Data blob_hello)) - 1)
   \<and> size_field (length (Kind blob_hello)) (Write_content (blob_hello\<lparr>Data := []\<rparr>)) = ''-1''"
proof -
  have s: "size_field (length (Kind blob_hello)) (Write_content blob_hello) = ''4''"
    by (simp add: blob_hello_def Write_content_def Itoa_eval size_field_def)
  show ?thesis
    using Write_size_field [of blob_hello] s
    by (simp add: blob_hello_def Write_content_def Itoa_eval)
qed

theorem Write_ignores_Size_witness:
  "Size (blob_hello\<lparr>Size := ''5''\<rparr>) \<noteq> Size blob_hello
   \<and> Write_content (blob_hello\<lparr>Size := ''5''\<rparr>) = Write_content blob_hello
   \<and> Write stored_zlib (blob_hello\<lparr>Size := ''5''\<rparr>) ''repo/.git'' example_world
       = Write stored_zlib blob_hello ''repo/.git'' example_world"
  using Write_ignores_Size [of "blob_hello\<lparr>Size := ''5''\<rparr>" blob_hello stored_zlib "''repo/.git''" example_world]
  by (simp add: blob_hello_def)

subsection \<open>Addresses\<close>

text \<open>The digest of \<^verbatim>\<open>abc\<close> is the one the standard gives for it.\<close>

lemma sha1_abc: "hex_EncodeToString (sha1_Sum ''abc'') = ''a9993e364706816aba3e25717850c26c9cd0d89d''"
  by (simp add: sha1_eval)

lemma content_blob_hello:
  "Write_content blob_hello
     = [CHR ''b'', CHR ''l'', CHR ''o'', CHR ''b'', CHR '' '', CHR ''4'', CHR 0x00,
        CHR ''h'', CHR ''e'', CHR ''l'', CHR ''l'', CHR ''o'']"
  by (simp add: blob_hello_def Write_content_def Itoa_eval)

lemma sha1_blob_hello:
  "hex_EncodeToString (sha1_Sum
     [CHR ''b'', CHR ''l'', CHR ''o'', CHR ''b'', CHR '' '', CHR ''4'', CHR 0x00,
      CHR ''h'', CHR ''e'', CHR ''l'', CHR ''l'', CHR ''o''])
   = ''b5f14ea7bb72f6b77c73a6cd295e09bd01552589''"
  by (simp add: sha1_eval)

lemma content_binary_blob:
  "Write_content binary_blob
     = [CHR ''b'', CHR ''l'', CHR ''o'', CHR ''b'', CHR '' '', CHR ''3'', CHR 0x00,
        CHR ''a'', CHR 0x00, CHR '' '', CHR ''b'']"
  by (simp add: binary_blob_def Write_content_def Itoa_eval)

lemma sha1_binary_blob:
  "hex_EncodeToString (sha1_Sum
     [CHR ''b'', CHR ''l'', CHR ''o'', CHR ''b'', CHR '' '', CHR ''3'', CHR 0x00,
      CHR ''a'', CHR 0x00, CHR '' '', CHR ''b''])
   = ''f500cdf4a7e91487cf2448c85022ff76e261650c''"
  by (simp add: sha1_eval)

lemmas write_eval = Write_def Let_def path_eval os_eval

lemma Write_blob_hello:
  "fst (Write stored_zlib blob_hello ''repo/.git'' example_world)
     = (''b5f14ea7bb72f6b77c73a6cd295e09bd01552589'', None)"
  by (simp add: write_eval content_blob_hello sha1_blob_hello example_world_def zlib_eval)

lemma Write_blob_hello_bare:
  "fst (Write stored_zlib (blob_hello\<lparr>Size := ''junk''\<rparr>) ''/tmp/other'' bare_world)
     = (''b5f14ea7bb72f6b77c73a6cd295e09bd01552589'', None)"
proof -
  have "Write_content (blob_hello\<lparr>Size := ''junk''\<rparr>) = Write_content blob_hello"
    by (simp add: Write_content_def)
  then show ?thesis
    by (simp add: write_eval content_blob_hello sha1_blob_hello bare_world_def zlib_eval)
qed

text \<open>
  Claim C9. For the kind \<^verbatim>\<open>blob\<close> and the payload \<^verbatim>\<open>hello\<close> the frame is \<^verbatim>\<open>blob 4\<close>, a
  null byte, \<^verbatim>\<open>hello\<close>, and reading the file that \<^verbatim>\<open>Write\<close> stored returns the size
  \<^verbatim>\<open>4\<close>.
\<close>

theorem blob_hello_size_4:
  "Write_content blob_hello = ''blob 4'' @ [CHR 0x00] @ ''hello''
   \<and> fst (Write stored_zlib blob_hello ''repo/.git'' example_world)
       = (''b5f14ea7bb72f6b77c73a6cd295e09bd01552589'', None)
   \<and> ReadObject stored_zlib ''repo/.git/objects/b5/f14ea7bb72f6b77c73a6cd295e09bd01552589''
        (snd (Write stored_zlib blob_hello ''repo/.git'' example_world))
       = Inr (\<lparr>Kind = ''blob'', Size = ''4'', Data = ''hello''\<rparr>, None)"
  by (simp add: write_eval content_blob_hello sha1_blob_hello example_world_def zlib_eval read_eval)

text \<open>
  Claim C3. A payload of four bytes with a null byte and a space in it is written and read
  back: the kind and the payload come back as they were, and the size reads \<^verbatim>\<open>3\<close>.
\<close>

theorem store_round_trip_size_off_by_one:
  "fst (Write stored_zlib binary_blob ''/srv/store'' example_world)
       = (''f500cdf4a7e91487cf2448c85022ff76e261650c'', None)
   \<and> ReadObject stored_zlib ''/srv/store/objects/f5/00cdf4a7e91487cf2448c85022ff76e261650c''
        (snd (Write stored_zlib binary_blob ''/srv/store'' example_world))
       = Inr (\<lparr>Kind = ''blob'', Size = ''3'', Data = [CHR ''a'', CHR 0x00, CHR '' '', CHR ''b'']\<rparr>, None)
   \<and> length (Data binary_blob) = 4"
  by (simp add: write_eval content_binary_blob sha1_binary_blob example_world_def zlib_eval read_eval)
    (simp add: binary_blob_def)

theorem Write_address_witness:
  "fst (Write stored_zlib blob_hello ''repo/.git'' example_world)
     = (''b5f14ea7bb72f6b77c73a6cd295e09bd01552589'', None)
   \<and> fst (Write stored_zlib (blob_hello\<lparr>Size := ''junk''\<rparr>) ''/tmp/other'' bare_world)
     = (''b5f14ea7bb72f6b77c73a6cd295e09bd01552589'', None)
   \<and> ''b5f14ea7bb72f6b77c73a6cd295e09bd01552589''
       = hex_EncodeToString (sha1_Sum (''blob 4'' @ [CHR 0x00] @ ''hello''))
   \<and> length ''b5f14ea7bb72f6b77c73a6cd295e09bd01552589'' = 40"
proof -
  let ?a = "''b5f14ea7bb72f6b77c73a6cd295e09bd01552589''"
  let ?o2 = "blob_hello\<lparr>Size := ''junk''\<rparr>"
  have w1: "Write stored_zlib blob_hello ''repo/.git'' example_world
      = ((?a, None), snd (Write stored_zlib blob_hello ''repo/.git'' example_world))"
    using Write_blob_hello by (simp add: prod_eq_iff)
  have w2: "Write stored_zlib ?o2 ''/tmp/other'' bare_world
      = ((?a, None), snd (Write stored_zlib ?o2 ''/tmp/other'' bare_world))"
    using Write_blob_hello_bare by (simp add: prod_eq_iff)
  have k: "Kind ?o2 = Kind blob_hello" and d: "Data ?o2 = Data blob_hello" by simp_all
  show ?thesis
    using Write_address [OF w1 k d w2] Write_blob_hello Write_blob_hello_bare
    by (simp add: blob_hello_def Itoa_eval sha1_blob_hello)
qed

theorem Write_path_witness:
  "cwd_ok example_world
   \<and> fst (Write stored_zlib blob_hello ''repo/.git'' example_world)
       = (''b5f14ea7bb72f6b77c73a6cd295e09bd01552589'', None)
   \<and> abs_names example_world ''repo/.git'' = Inr [''home'', ''u'', ''repo'', ''.git'']
   \<and> fs (snd (Write stored_zlib blob_hello ''repo/.git'' example_world))
        [''home'', ''u'', ''repo'', ''.git'', ''objects'', ''b5'',
         ''f14ea7bb72f6b77c73a6cd295e09bd01552589'']
       = Some (File (stored_Compress (Write_content blob_hello)))"
proof -
  let ?a = "''b5f14ea7bb72f6b77c73a6cd295e09bd01552589''"
  have ok: "cwd_ok example_world"
    by (simp add: cwd_ok_def example_world_def normal_name_def)
  have w1: "Write stored_zlib blob_hello ''repo/.git'' example_world
      = ((?a, None), snd (Write stored_zlib blob_hello ''repo/.git'' example_world))"
    using Write_blob_hello by (simp add: prod_eq_iff)
  have n: "abs_names example_world ''repo/.git'' = Inr [''home'', ''u'', ''repo'', ''.git'']"
    by (simp add: example_world_def path_eval)
  show ?thesis
    using Write_path [OF ok w1] ok Write_blob_hello n
    by (simp add: stored_zlib_def)
qed

end
